theory Spec2Isabelle
  imports Main "HOL-Library.AList"
begin

section \<open>The n-gram tokenizer of \<^verbatim>\<open>tokenizers.py\<close>\<close>

text \<open>
  The development embeds \<^verbatim>\<open>convert_text_to_words\<close> and the class
  \<^verbatim>\<open>NgramTokenizer\<close> (with its base class \<^verbatim>\<open>Tokenizer\<close>) as HOL functions.

  \<^item> A Python \<^verbatim>\<open>str\<close> is a list of characters of an arbitrary type \<open>'c\<close>. The regular
    expression \<^verbatim>\<open>\w+|[^\w\s]\<close> consults the Unicode tables of the Python runtime for the
    classes \<^verbatim>\<open>\w\<close> and \<^verbatim>\<open>\s\<close>; those tables are not part of the program, so they are a
    parameter of the model (a record of two predicates). Results hold for every
    classification, the Unicode one included.
  \<^item> A Python \<^verbatim>\<open>int\<close> is an \<open>int\<close>.
  \<^item> A Python \<^verbatim>\<open>dict\<close> is an association list with distinct keys in insertion order:
    assigning to a present key keeps its position, assigning to a new key appends it.
    That is \<open>AList.update\<close>.
  \<^item> A method is a function of the instance state that returns the new state.
\<close>

subsection \<open>Python list primitives\<close>

text \<open>\<^verbatim>\<open>range(m)\<close>: the integers \<open>0, \<dots>, m - 1\<close>, none when \<open>m \<le> 0\<close>.\<close>

definition py_range :: "int \<Rightarrow> int list" where
  "py_range m = [0..m - 1]"

text \<open>
  A slice bound of a list of length \<open>len\<close>: a negative bound counts from the end, and
  the result is clamped to \<open>0 \<dots> len\<close>.
\<close>

definition slice_bound :: "nat \<Rightarrow> int \<Rightarrow> nat" where
  "slice_bound len i =
     (if i < 0 then nat (max 0 (i + int len)) else nat (min i (int len)))"

text \<open>\<^verbatim>\<open>xs[a:b]\<close>\<close>

definition py_slice :: "'a list \<Rightarrow> int \<Rightarrow> int \<Rightarrow> 'a list" where
  "py_slice xs a b =
     (let lo = slice_bound (length xs) a; hi = slice_bound (length xs) b
      in take (hi - lo) (drop lo xs))"

text \<open>\<^verbatim>\<open>xs[:b]\<close>\<close>

definition py_slice_to :: "'a list \<Rightarrow> int \<Rightarrow> 'a list" where
  "py_slice_to xs b = take (slice_bound (length xs) b) xs"

text \<open>\<^verbatim>\<open>enumerate(xs)\<close>\<close>

definition py_enumerate :: "'a list \<Rightarrow> (int \<times> 'a) list" where
  "py_enumerate xs = zip (map int [0..<length xs]) xs"

subsection \<open>Segmentation: \<^verbatim>\<open>convert_text_to_words\<close>\<close>

record 'c char_classes =
  is_word :: "'c \<Rightarrow> bool"
  is_space :: "'c \<Rightarrow> bool"

text \<open>
  The first alternative \<^verbatim>\<open>\w+\<close> at the start of \<open>cs\<close>: greedy, at least one character.
  The result is the length of the match.
\<close>

definition match_word_run :: "'c char_classes \<Rightarrow> 'c list \<Rightarrow> nat option" where
  "match_word_run cls cs =
     (let k = length (takeWhile (is_word cls) cs) in if k = 0 then None else Some k)"

text \<open>The second alternative \<^verbatim>\<open>[^\w\s]\<close>: one character that is neither.\<close>

definition match_other :: "'c char_classes \<Rightarrow> 'c list \<Rightarrow> nat option" where
  "match_other cls cs =
     (case cs of
        [] \<Rightarrow> None
      | c # _ \<Rightarrow> if \<not> is_word cls c \<and> \<not> is_space cls c then Some 1 else None)"

text \<open>The alternation tries the left alternative first.\<close>

definition identify_words_regex :: "'c char_classes \<Rightarrow> 'c list \<Rightarrow> nat option" where
  "identify_words_regex cls cs =
     (case match_word_run cls cs of Some k \<Rightarrow> Some k | None \<Rightarrow> match_other cls cs)"

text \<open>
  \<^verbatim>\<open>findall\<close> scans from the left: where the pattern matches, the matched text is
  emitted and the scan resumes after it; elsewhere the scan moves on by one character.
\<close>

function findall :: "'c char_classes \<Rightarrow> 'c list \<Rightarrow> 'c list list" where
  "findall cls cs =
     (if cs = [] then []
      else case identify_words_regex cls cs of
             None \<Rightarrow> findall cls (tl cs)
           | Some k \<Rightarrow> take k cs # findall cls (drop k cs))"
  by pat_completeness auto
termination
proof (relation "measure (\<lambda>(cls, cs). length cs)")
  show "wf (measure (\<lambda>(cls :: 'c char_classes, cs :: 'c list). length cs))"
    by simp
next
  fix cls :: "'c char_classes" and cs :: "'c list"
  assume "cs \<noteq> []"
  then show "((cls, tl cs), cls, cs) \<in> measure (\<lambda>(cls, cs). length cs)"
    by (cases cs) simp_all
next
  fix cls :: "'c char_classes" and cs :: "'c list" and k
  assume nonempty: "cs \<noteq> []" and matched: "identify_words_regex cls cs = Some k"
  have "0 < k"
    using matched
    by (auto simp: identify_words_regex_def match_word_run_def match_other_def Let_def
        split: option.splits list.splits if_splits)
  then show "((cls, drop k cs), cls, cs) \<in> measure (\<lambda>(cls, cs). length cs)"
    using nonempty by simp
qed

declare findall.simps [simp del]

definition convert_text_to_words :: "'c char_classes \<Rightarrow> 'c list \<Rightarrow> 'c list list" where
  "convert_text_to_words cls text = findall cls text"

text \<open>
  The segmentation as the specification words it: a maximal run of word characters is
  one unit, any other character that is not whitespace is a unit of its own, whitespace
  is dropped.
\<close>

function segment :: "'c char_classes \<Rightarrow> 'c list \<Rightarrow> 'c list list" where
  "segment cls [] = []"
| "segment cls (c # cs) =
     (if is_word cls c
        then (c # takeWhile (is_word cls) cs) # segment cls (dropWhile (is_word cls) cs)
      else if is_space cls c then segment cls cs
      else [c] # segment cls cs)"
  by pat_completeness auto
termination
  by (relation "measure (\<lambda>(cls, cs). length cs)")
    (auto simp: less_Suc_eq_le length_dropWhile_le)

text \<open>
  The classification of the ASCII characters (code points below 128), where Python's
  \<^verbatim>\<open>\w\<close> is \<^verbatim>\<open>[a-zA-Z0-9_]\<close> and \<^verbatim>\<open>\s\<close> is the six characters \<^verbatim>\<open>[ \t\n\r\f\v]\<close> with
  the four separators \<^verbatim>\<open>\x1c\<close> to \<^verbatim>\<open>\x1f\<close>. It is used on ASCII text only.
\<close>

definition ascii_word :: "char \<Rightarrow> bool" where
  "ascii_word c =
     (let k = (of_char c :: nat)
      in (48 \<le> k \<and> k \<le> 57) \<or> (65 \<le> k \<and> k \<le> 90) \<or> k = 95 \<or> (97 \<le> k \<and> k \<le> 122))"

definition ascii_space :: "char \<Rightarrow> bool" where
  "ascii_space c =
     (let k = (of_char c :: nat) in (9 \<le> k \<and> k \<le> 13) \<or> (28 \<le> k \<and> k \<le> 32))"

definition ascii_classes :: "char char_classes" where
  "ascii_classes = \<lparr>is_word = ascii_word, is_space = ascii_space\<rparr>"

subsection \<open>N-gram extraction\<close>

text \<open>
  \<^verbatim>\<open>[tuple(words[i:i + n]) for i in range(len(words) - n + 1)]\<close>, the expression of both
  \<^verbatim>\<open>tokenize\<close> and \<^verbatim>\<open>train\<close>. A tuple of units is a list of units.
\<close>

definition extract_ngrams :: "int \<Rightarrow> 'a list \<Rightarrow> 'a list list" where
  "extract_ngrams n words =
     map (\<lambda>i. py_slice words i (i + n)) (py_range (int (length words) - n + 1))"

subsection \<open>Dictionaries\<close>

datatype error = KeyError | Exception string

type_synonym ('k, 'v) dict = "('k \<times> 'v) list"

text \<open>\<^verbatim>\<open>k in d\<close>\<close>

definition dict_contains :: "('k, 'v) dict \<Rightarrow> 'k \<Rightarrow> bool" where
  "dict_contains d k = (map_of d k \<noteq> None)"

text \<open>\<^verbatim>\<open>d[k]\<close> of a plain \<^verbatim>\<open>dict\<close>: a missing key raises \<^verbatim>\<open>KeyError\<close>.\<close>

definition dict_getitem :: "('k, 'v) dict \<Rightarrow> 'k \<Rightarrow> error + 'v" where
  "dict_getitem d k = (case map_of d k of None \<Rightarrow> Inl KeyError | Some v \<Rightarrow> Inr v)"

text \<open>\<^verbatim>\<open>d[k] = v\<close>\<close>

definition dict_setitem :: "('k, 'v) dict \<Rightarrow> 'k \<Rightarrow> 'v \<Rightarrow> ('k, 'v) dict" where
  "dict_setitem d k v = AList.update k v d"

text \<open>
  \<^verbatim>\<open>d[k]\<close> of a \<^verbatim>\<open>defaultdict(int)\<close>: a missing key is first inserted with the value 0.
  The result is the value read and the dictionary after the read.
\<close>

definition defaultdict_getitem :: "('k, int) dict \<Rightarrow> 'k \<Rightarrow> int \<times> ('k, int) dict" where
  "defaultdict_getitem d k =
     (case map_of d k of None \<Rightarrow> (0, dict_setitem d k 0) | Some v \<Rightarrow> (v, d))"

text \<open>\<^verbatim>\<open>d[k] += 1\<close> of a \<^verbatim>\<open>defaultdict(int)\<close>: read, add, store.\<close>

definition defaultdict_incr :: "('k, int) dict \<Rightarrow> 'k \<Rightarrow> ('k, int) dict" where
  "defaultdict_incr d k = (case defaultdict_getitem d k of (v, d') \<Rightarrow> dict_setitem d' k (v + 1))"

text \<open>
  \<^verbatim>\<open>sorted(xs, key=key, reverse=True)\<close>: the sort is stable, and with \<^verbatim>\<open>reverse=True\<close>
  every comparison is reversed while elements of equal key keep their order. For
  integer keys that is the stable ascending sort by the negated key.
\<close>

definition sorted_reverse :: "('a \<Rightarrow> int) \<Rightarrow> 'a list \<Rightarrow> 'a list" where
  "sorted_reverse key xs = sort_key (\<lambda>x. - key x) xs"

subsection \<open>The classes \<^verbatim>\<open>Tokenizer\<close> and \<^verbatim>\<open>NgramTokenizer\<close>\<close>

type_synonym 'c ngram = "'c list list"

record 'c tokenizer =
  vocab_size :: int
  token_to_id :: "('c ngram, int) dict"
  id_to_token :: "(int, 'c ngram) dict"

text \<open>The field \<open>ngram_size\<close> is \<^verbatim>\<open>self.n\<close>.\<close>

record 'c ngram_tokenizer = "'c tokenizer" +
  ngram_size :: int

text \<open>\<^verbatim>\<open>Tokenizer.__init__\<close>\<close>

definition Tokenizer_init :: "int \<Rightarrow> 'c tokenizer" where
  "Tokenizer_init vs = \<lparr>vocab_size = vs, token_to_id = [], id_to_token = []\<rparr>"

text \<open>\<^verbatim>\<open>NgramTokenizer.__init__\<close>: the base initialiser, then \<^verbatim>\<open>self.n = n\<close>.\<close>

definition NgramTokenizer_init :: "int \<Rightarrow> int \<Rightarrow> 'c ngram_tokenizer" where
  "NgramTokenizer_init n vs = tokenizer.extend (Tokenizer_init vs) (ngram_tokenizer.fields n)"

text \<open>
  The call \<^verbatim>\<open>NgramTokenizer(n, vocab_size)\<close>, with its outcome: an exception of
  \<^verbatim>\<open>__init__\<close> or the instance. Neither initialiser has a check or a \<^verbatim>\<open>raise\<close>.
\<close>

definition NgramTokenizer_new :: "int \<Rightarrow> int \<Rightarrow> error + 'c ngram_tokenizer" where
  "NgramTokenizer_new n vs = Inr (NgramTokenizer_init n vs)"

text \<open>What \<^verbatim>\<open>tokenize\<close> returns: a list of n-grams or a list of ids.\<close>

datatype 'c tokens = Ngrams "'c ngram list" | Ids "int list"

text \<open>
  The methods \<^verbatim>\<open>tokenize\<close>, \<^verbatim>\<open>train\<close> and \<^verbatim>\<open>__len__\<close> of the base class only raise;
  \<^verbatim>\<open>NgramTokenizer\<close> overrides the three of them.
\<close>

definition Tokenizer_tokenize :: "'c tokenizer \<Rightarrow> 'c list \<Rightarrow> bool \<Rightarrow> error + 'c tokens" where
  "Tokenizer_tokenize self text return_token_ids = Inl (Exception ''tokenize not implemented'')"

definition Tokenizer_train :: "'c tokenizer \<Rightarrow> 'c list list \<Rightarrow> error + 'c tokenizer" where
  "Tokenizer_train self corpus = Inl (Exception ''train not implemented'')"

definition Tokenizer_len :: "'c tokenizer \<Rightarrow> error + int" where
  "Tokenizer_len self = Inl (Exception ''__len__ not implemented'')"

text \<open>
  \<^verbatim>\<open>[d[ngram] for ngram in ngrams if ngram in d]\<close>, the subscript raising on a missing key.
\<close>

fun lookup_ids :: "('k, int) dict \<Rightarrow> 'k list \<Rightarrow> error + int list" where
  "lookup_ids d [] = Inr []"
| "lookup_ids d (g # gs) =
     (if dict_contains d g
      then (case dict_getitem d g of
              Inl e \<Rightarrow> Inl e
            | Inr i \<Rightarrow> (case lookup_ids d gs of Inl e \<Rightarrow> Inl e | Inr is \<Rightarrow> Inr (i # is)))
      else lookup_ids d gs)"

text \<open>
  \<^verbatim>\<open>NgramTokenizer.tokenize\<close>: the outcome (an exception or the tokens) and the instance
  after the call.
\<close>

definition tokenize ::
  "'c char_classes \<Rightarrow> 'c ngram_tokenizer \<Rightarrow> 'c list \<Rightarrow> bool \<Rightarrow>
     (error + 'c tokens) \<times> 'c ngram_tokenizer" where
  "tokenize cls self text return_token_ids =
     (let words = convert_text_to_words cls text;
          ngrams = extract_ngrams (ngram_size self) words
      in if return_token_ids
         then (case lookup_ids (token_to_id self) ngrams of
                 Inl e \<Rightarrow> (Inl e, self)
               | Inr token_ids \<Rightarrow> (Inr (Ids token_ids), self))
         else (Inr (Ngrams (filter (dict_contains (token_to_id self)) ngrams)), self))"

text \<open>The counting loop of \<^verbatim>\<open>train\<close>, from the empty \<^verbatim>\<open>defaultdict(int)\<close>.\<close>

definition count_ngrams :: "'c char_classes \<Rightarrow> int \<Rightarrow> 'c list list \<Rightarrow> ('c ngram, int) dict" where
  "count_ngrams cls n corpus =
     fold (\<lambda>text token_counts.
             let words = convert_text_to_words cls text;
                 ngrams = extract_ngrams n words
             in fold (\<lambda>ngram counts. defaultdict_incr counts ngram) ngrams token_counts)
       corpus []"

text \<open>\<^verbatim>\<open>NgramTokenizer.train\<close>\<close>

definition train ::
  "'c char_classes \<Rightarrow> 'c ngram_tokenizer \<Rightarrow> 'c list list \<Rightarrow> 'c ngram_tokenizer" where
  "train cls self corpus =
     (let token_counts = count_ngrams cls (ngram_size self) corpus;
          sorted_ngrams = sorted_reverse snd token_counts;
          sorted_ngrams =
            (if vocab_size self \<noteq> - 1 then py_slice_to sorted_ngrams (vocab_size self)
             else sorted_ngrams);
          tti = fold (\<lambda>(idx, (ngram, _)) d. dict_setitem d ngram idx)
                  (py_enumerate sorted_ngrams) [];
          itt = fold (\<lambda>(ngram, idx) d. dict_setitem d idx ngram) tti []
      in self\<lparr>token_to_id := tti, id_to_token := itt\<rparr>)"

text \<open>\<^verbatim>\<open>NgramTokenizer.__len__\<close>\<close>

definition len :: "'c ngram_tokenizer \<Rightarrow> int" where
  "len self = int (length (token_to_id self))"

subsection \<open>Notions of the specification\<close>

text \<open>The windows of the whole corpus, in the order of the scan.\<close>

definition corpus_ngrams :: "'c char_classes \<Rightarrow> int \<Rightarrow> 'c list list \<Rightarrow> 'c ngram list" where
  "corpus_ngrams cls n corpus =
     concat (map (\<lambda>text. extract_ngrams n (convert_text_to_words cls text)) corpus)"

text \<open>The frequency of an n-gram: how often it occurs among the windows of the corpus.\<close>

definition frequency :: "'c char_classes \<Rightarrow> int \<Rightarrow> 'c list list \<Rightarrow> 'c ngram \<Rightarrow> int" where
  "frequency cls n corpus g = int (count_list (corpus_ngrams cls n corpus) g)"

text \<open>The position of the first occurrence of \<open>a\<close> in \<open>xs\<close> (the length if there is none).\<close>

fun first_pos :: "'a list \<Rightarrow> 'a \<Rightarrow> nat" where
  "first_pos [] a = 0"
| "first_pos (x # xs) a = (if x = a then 0 else Suc (first_pos xs a))"

definition first_occurrence :: "'c char_classes \<Rightarrow> int \<Rightarrow> 'c list list \<Rightarrow> 'c ngram \<Rightarrow> nat" where
  "first_occurrence cls n corpus g = first_pos (corpus_ngrams cls n corpus) g"

text \<open>The counting loop over a list of n-grams, from the dictionary \<open>d\<close>.\<close>

definition count_all :: "'k list \<Rightarrow> ('k, int) dict \<Rightarrow> ('k, int) dict" where
  "count_all gs d = fold (\<lambda>g c. defaultdict_incr c g) gs d"

text \<open>The n-grams of the corpus by rank: \<^verbatim>\<open>sorted_ngrams\<close> before the truncation, without the counts.\<close>

definition ranked :: "'c char_classes \<Rightarrow> int \<Rightarrow> 'c list list \<Rightarrow> 'c ngram list" where
  "ranked cls n corpus = map fst (sorted_reverse snd (count_ngrams cls n corpus))"

text \<open>The truncation step of \<^verbatim>\<open>train\<close>.\<close>

definition retained :: "int \<Rightarrow> 'a list \<Rightarrow> 'a list" where
  "retained vs xs = (if vs \<noteq> - 1 then py_slice_to xs vs else xs)"

section \<open>Properties\<close>

subsection \<open>Segmentation\<close>

lemma regex_word:
  "is_word cls c \<Longrightarrow>
   identify_words_regex cls (c # cs) = Some (Suc (length (takeWhile (is_word cls) cs)))"
  by (simp add: identify_words_regex_def match_word_run_def)

lemma regex_space:
  "\<not> is_word cls c \<Longrightarrow> is_space cls c \<Longrightarrow> identify_words_regex cls (c # cs) = None"
  by (simp add: identify_words_regex_def match_word_run_def match_other_def)

lemma regex_other:
  "\<not> is_word cls c \<Longrightarrow> \<not> is_space cls c \<Longrightarrow> identify_words_regex cls (c # cs) = Some 1"
  by (simp add: identify_words_regex_def match_word_run_def match_other_def)

lemma take_drop_takeWhile:
  "take (length (takeWhile P xs)) xs = takeWhile P xs"
  "drop (length (takeWhile P xs)) xs = dropWhile P xs"
  by (induction xs) auto

lemma findall_segment: "findall cls cs = segment cls cs"
proof (induction cls cs rule: segment.induct)
  case (1 cls)
  show ?case by (simp add: findall.simps)
next
  case (2 cls c cs)
  show ?case
  proof (cases "is_word cls c")
    case True
    then show ?thesis using 2(1)
      by (subst findall.simps) (simp add: regex_word take_drop_takeWhile)
  next
    case False
    show ?thesis
    proof (cases "is_space cls c")
      case True
      then show ?thesis using False 2(2)
        by (subst findall.simps) (simp add: regex_space)
    next
      case sp: False
      then show ?thesis using False 2(3)
        by (subst findall.simps) (simp add: regex_other)
    qed
  qed
qed

text \<open>
  Claim C6. \<^verbatim>\<open>convert_text_to_words\<close> is the segmentation of the specification: every
  maximal run of word characters is one unit, every other character that is not
  whitespace is a unit of its own, whitespace is dropped, from left to right. On the
  text \<^verbatim>\<open>This movie was really bad, but bad.\<close> it yields the nine units of the
  specification, and on the empty text the empty list.
\<close>

theorem convert_text_to_words_segment:
  "convert_text_to_words cls text = segment cls text
   \<and> convert_text_to_words ascii_classes ''This movie was really bad, but bad.''
       = [''This'', ''movie'', ''was'', ''really'', ''bad'', '','', ''but'', ''bad'', ''.'']
   \<and> convert_text_to_words cls [] = []"
  unfolding convert_text_to_words_def findall_segment
  by (simp add: ascii_classes_def ascii_word_def ascii_space_def)

subsection \<open>Windows\<close>

lemma length_py_range: "length (py_range m) = nat m"
  by (simp add: py_range_def)

lemma nth_py_range: "i < nat m \<Longrightarrow> py_range m ! i = int i"
  by (simp add: py_range_def)

lemma length_extract_ngrams: "length (extract_ngrams n ws) = nat (int (length ws) - n + 1)"
  by (simp add: extract_ngrams_def length_py_range)

lemma nth_extract_ngrams:
  assumes "1 \<le> n" "i < length (extract_ngrams n ws)"
  shows "extract_ngrams n ws ! i = take (nat n) (drop i ws)"
  using assms
  by (auto simp: extract_ngrams_def length_py_range nth_py_range py_slice_def slice_bound_def
      Let_def min_def max_def nat_diff_distrib nat_add_distrib)

lemma length_corpus_ngrams:
  "int (length (corpus_ngrams cls n corpus))
     = (\<Sum>text\<leftarrow>corpus. max 0 (int (length (convert_text_to_words cls text)) - n + 1))"
  by (induction corpus) (simp_all add: corpus_ngrams_def length_extract_ngrams max_def)

subsection \<open>Counting\<close>

lemma incr_update:
  "defaultdict_incr d k =
     AList.update k (case map_of d k of None \<Rightarrow> 1 | Some v \<Rightarrow> v + 1) d"
  by (simp add: defaultdict_incr_def defaultdict_getitem_def dict_setitem_def
      split: option.splits)

lemma keys_incr:
  "map fst (defaultdict_incr d k) = (if k \<in> set (map fst d) then map fst d else map fst d @ [k])"
  by (simp add: incr_update update_keys)

lemma distinct_incr:
  "distinct (map fst d) \<Longrightarrow> distinct (map fst (defaultdict_incr d k))"
  by (simp add: incr_update distinct_update)

lemma map_of_incr:
  "map_of (defaultdict_incr d k) g =
     (if g = k then Some (case map_of d k of None \<Rightarrow> 1 | Some v \<Rightarrow> v + 1) else map_of d g)"
  by (simp add: incr_update update_conv')

lemma count_all_snoc: "count_all (gs @ [g]) d = defaultdict_incr (count_all gs d) g"
  by (simp add: count_all_def)

lemma count_ngrams_count_all:
  "count_ngrams cls n corpus = count_all (corpus_ngrams cls n corpus) []"
proof -
  have "fold (\<lambda>text token_counts.
             let words = convert_text_to_words cls text;
                 ngrams = extract_ngrams n words
             in fold (\<lambda>ngram counts. defaultdict_incr counts ngram) ngrams token_counts)
       corpus d = count_all (corpus_ngrams cls n corpus) d" for d
    by (induction corpus arbitrary: d) (simp_all add: count_all_def corpus_ngrams_def)
  then show ?thesis by (simp add: count_ngrams_def)
qed

lemma distinct_count_all:
  "distinct (map fst d) \<Longrightarrow> distinct (map fst (count_all gs d))"
proof (induction gs rule: rev_induct)
  case Nil
  then show ?case by (simp add: count_all_def)
next
  case (snoc g gs)
  then show ?case by (simp add: count_all_snoc distinct_incr)
qed

lemma set_keys_count_all:
  "set (map fst (count_all gs d)) = set (map fst d) \<union> set gs"
  by (induction gs rule: rev_induct) (auto simp: count_all_snoc keys_incr count_all_def)

lemma map_of_count_all:
  "map_of (count_all gs []) g = (if g \<in> set gs then Some (int (count_list gs g)) else None)"
proof (induction gs arbitrary: g rule: rev_induct)
  case Nil
  show ?case by (simp add: count_all_def)
next
  case (snoc x xs)
  show ?case
    by (simp add: count_all_snoc map_of_incr snoc.IH)
qed

lemma sum_update:
  "distinct (map fst d) \<Longrightarrow>
   sum_list (map snd (AList.update k v d))
     = sum_list (map snd d) - (case map_of d k of None \<Rightarrow> 0 | Some w \<Rightarrow> w) + (v :: int)"
proof (induction d)
  case Nil
  show ?case by simp
next
  case (Cons p d)
  then show ?case
    by (cases p) (auto split: option.splits simp: weak_map_of_SomeI image_iff)
qed

lemma sum_incr:
  "distinct (map fst d) \<Longrightarrow>
   sum_list (map snd (defaultdict_incr d k)) = sum_list (map snd d) + 1"
  by (simp add: incr_update sum_update split: option.splits)

lemma sum_count_all:
  "distinct (map fst d) \<Longrightarrow>
   sum_list (map snd (count_all gs d)) = sum_list (map snd d) + int (length gs)"
proof (induction gs rule: rev_induct)
  case Nil
  show ?case by (simp add: count_all_def)
next
  case (snoc g gs)
  then show ?case
    by (simp add: count_all_snoc sum_incr distinct_count_all)
qed

text \<open>
  Claim C5. For \<open>n \<ge> 1\<close>, a document of \<open>k\<close> units has \<open>max 0 (k - n + 1)\<close> windows, none
  when \<open>k < n\<close>; window \<open>i\<close> is the \<open>n\<close> units from position \<open>i\<close>, so equal windows at
  different positions are all kept. The counts of \<^verbatim>\<open>train\<close> add up to the number of
  windows of all documents.
\<close>

theorem window_count:
  assumes "1 \<le> n"
  shows "int (length (extract_ngrams n ws)) = max 0 (int (length ws) - n + 1)
       \<and> (int (length ws) < n \<longrightarrow> extract_ngrams n ws = [])
       \<and> (\<forall>i < length (extract_ngrams n ws).
             extract_ngrams n ws ! i = take (nat n) (drop i ws)
             \<and> int (length (extract_ngrams n ws ! i)) = n)
       \<and> sum_list (map snd (count_ngrams cls n corpus))
           = (\<Sum>text\<leftarrow>corpus. max 0 (int (length (convert_text_to_words cls text)) - n + 1))"
proof (intro conjI allI impI)
  show "int (length (extract_ngrams n ws)) = max 0 (int (length ws) - n + 1)"
    by (simp add: length_extract_ngrams max_def)
  show "extract_ngrams n ws = []" if "int (length ws) < n"
    using that length_extract_ngrams [of n ws] by simp
  show "extract_ngrams n ws ! i = take (nat n) (drop i ws)"
    if "i < length (extract_ngrams n ws)" for i
    using that assms by (rule nth_extract_ngrams [rotated])
  show "int (length (extract_ngrams n ws ! i)) = n"
    if "i < length (extract_ngrams n ws)" for i
    using that assms nth_extract_ngrams [of n i ws]
    by (simp add: length_extract_ngrams)
  show "sum_list (map snd (count_ngrams cls n corpus))
           = (\<Sum>text\<leftarrow>corpus. max 0 (int (length (convert_text_to_words cls text)) - n + 1))"
    using sum_count_all [of "[]" "corpus_ngrams cls n corpus"]
    by (simp add: count_ngrams_count_all length_corpus_ngrams)
qed

theorem window_count_witness:
  "(1::int) \<le> 2
   \<and> int (length (extract_ngrams 2 [''a'', ''b'', ''a'', ''b''])) = 3
   \<and> extract_ngrams 2 [''a'', ''b'', ''a'', ''b''] ! 0 = [''a'', ''b'']
   \<and> extract_ngrams 2 [''a'', ''b'', ''a'', ''b''] ! 2 = [''a'', ''b'']
   \<and> extract_ngrams 3 [''a'', ''b''] = []"
proof -
  have h2: "(1::int) \<le> 2" and h3: "(1::int) \<le> 3" by simp_all
  note a = window_count [OF h2, of "[''a'', ''b'', ''a'', ''b'']" ascii_classes "[]"]
  note b = window_count [OF h3, of "[''a'', ''b'']" ascii_classes "[]"]
  from a have len: "length (extract_ngrams 2 [''a'', ''b'', ''a'', ''b'']) = 3" by simp
  from a len have "extract_ngrams 2 [''a'', ''b'', ''a'', ''b''] ! 0 = [''a'', ''b'']"
    and "extract_ngrams 2 [''a'', ''b'', ''a'', ''b''] ! 2 = [''a'', ''b'']"
    by simp_all
  moreover from b have "extract_ngrams 3 [''a'', ''b''] = []" by simp
  ultimately show ?thesis using len by simp
qed

subsection \<open>Ranking and id assignment\<close>

lemma first_pos_append:
  "first_pos (xs @ ys) a = (if a \<in> set xs then first_pos xs a else length xs + first_pos ys a)"
  by (induction xs) auto

lemma first_pos_less: "a \<in> set xs \<Longrightarrow> first_pos xs a < length xs"
  by (induction xs) auto

lemma first_pos_nth: "a \<in> set xs \<Longrightarrow> xs ! first_pos xs a = a"
  by (induction xs) auto

lemma first_pos_keys:
  assumes "a \<in> set gs" "b \<in> set gs" "first_pos gs a < first_pos gs b"
  shows "first_pos (map fst (count_all gs [])) a < first_pos (map fst (count_all gs [])) b"
  using assms
proof (induction gs rule: rev_induct)
  case Nil
  then show ?case by simp
next
  case (snoc x xs)
  let ?ks = "map fst (count_all xs [])"
  have ks: "set ?ks = set xs" using set_keys_count_all [of xs "[]"] by simp
  show ?case
  proof (cases "b \<in> set xs")
    case True
    have "a \<in> set xs"
    proof (rule ccontr)
      assume "a \<notin> set xs"
      then show False using snoc.prems True first_pos_less[OF True]
        by (simp add: first_pos_append)
    qed
    then show ?thesis using True snoc ks
      by (auto simp: first_pos_append count_all_snoc keys_incr)
  next
    case False
    then have bx: "b = x" using snoc.prems by auto
    have "a \<noteq> b" using snoc.prems by auto
    then have "a \<in> set xs" using snoc.prems bx by auto
    then show ?thesis using False bx ks first_pos_less[of a ?ks]
      by (auto simp: first_pos_append count_all_snoc keys_incr)
  qed
qed


lemma first_pos_filter:
  "x \<in> set xs \<Longrightarrow> y \<in> set xs \<Longrightarrow> P x \<Longrightarrow> P y \<Longrightarrow>
   (first_pos (filter P xs) x < first_pos (filter P xs) y) = (first_pos xs x < first_pos xs y)"
  by (induction xs) auto

lemma first_pos_sort_key:
  assumes "x \<in> set xs" "y \<in> set xs" "f x = f y"
  shows "(first_pos (sort_key f xs) x < first_pos (sort_key f xs) y)
         = (first_pos xs x < first_pos xs y)"
proof -
  let ?P = "\<lambda>z. f z = f x"
  have "(first_pos (sort_key f xs) x < first_pos (sort_key f xs) y)
        = (first_pos (filter ?P (sort_key f xs)) x < first_pos (filter ?P (sort_key f xs)) y)"
    using assms by (subst first_pos_filter) simp_all
  also have "filter ?P (sort_key f xs) = filter ?P xs"
    by (rule sort_key_stable)
  also have "(first_pos (filter ?P xs) x < first_pos (filter ?P xs) y)
             = (first_pos xs x < first_pos xs y)"
    using assms by (subst first_pos_filter) simp_all
  finally show ?thesis .
qed

lemma first_pos_map_inj:
  "inj_on f (set xs) \<Longrightarrow> x \<in> set xs \<Longrightarrow> first_pos (map f xs) (f x) = first_pos xs x"
  by (induction xs) (auto simp: inj_on_def)

lemma first_pos_take:
  "a \<in> set (take m xs) \<Longrightarrow> first_pos (take m xs) a = first_pos xs a"
  using first_pos_append [of "take m xs" "drop m xs" a] by simp

lemma map_of_zip_upt:
  "map_of (zip ks (map int [m..<m + length ks])) a
     = (if a \<in> set ks then Some (int (m + first_pos ks a)) else None)"
proof (induction ks arbitrary: m)
  case Nil
  show ?case by simp
next
  case (Cons k ks)
  have "[m..<m + length (k # ks)] = m # [Suc m..<Suc m + length ks]"
    by (subst upt_rec) simp
  then show ?case using Cons.IH [of "Suc m"] by auto
qed

lemma update_fresh: "k \<notin> fst ` set d \<Longrightarrow> AList.update k v d = d @ [(k, v)]"
  by (induction d) auto

lemma fold_setitem_fresh:
  "distinct (map f ps) \<Longrightarrow> set (map f ps) \<inter> fst ` set d = {} \<Longrightarrow>
   fold (\<lambda>p d. dict_setitem d (f p) (h p)) ps d = d @ map (\<lambda>p. (f p, h p)) ps"
proof (induction ps arbitrary: d)
  case Nil
  show ?case by simp
next
  case (Cons p ps)
  have fresh: "f p \<notin> fst ` set d" using Cons.prems by auto
  have step: "dict_setitem d (f p) (h p) = d @ [(f p, h p)]"
    by (simp add: dict_setitem_def update_fresh fresh)
  have "set (map f ps) \<inter> fst ` set (d @ [(f p, h p)]) = {}"
    using Cons.prems by auto
  then show ?case using Cons.IH [of "d @ [(f p, h p)]"] Cons.prems step by simp
qed


lemma distinct_count_ngrams: "distinct (map fst (count_ngrams cls n corpus))"
  by (simp add: count_ngrams_count_all distinct_count_all)

lemma set_count_ngrams:
  "set (map fst (count_ngrams cls n corpus)) = set (corpus_ngrams cls n corpus)"
  using set_keys_count_all [of "corpus_ngrams cls n corpus" "[]"]
  by (simp add: count_ngrams_count_all)

lemma distinct_map_sort_key:
  "distinct (map g xs) \<Longrightarrow> distinct (map g (sort_key f xs))"
  by (metis distinct_map distinct_sort set_sort)

lemma distinct_ranked: "distinct (ranked cls n corpus)"
  unfolding ranked_def sorted_reverse_def
  by (rule distinct_map_sort_key) (rule distinct_count_ngrams)

lemma set_ranked: "set (ranked cls n corpus) = set (corpus_ngrams cls n corpus)"
  using set_count_ngrams [of cls n corpus] by (simp add: ranked_def sorted_reverse_def)

lemma retained_take:
  "retained vs xs = take (if vs \<noteq> - 1 then slice_bound (length xs) vs else length xs) xs"
  by (simp add: retained_def py_slice_to_def)

lemma distinct_retained: "distinct xs \<Longrightarrow> distinct (retained vs xs)"
  by (simp add: retained_take)

lemma retained_map: "retained vs (map f xs) = map f (retained vs xs)"
  by (simp add: retained_take take_map)

lemma enumerate_keys:
  "map (\<lambda>p. (fst (snd p), fst p)) (py_enumerate xs) = zip (map fst xs) (map int [0..<length xs])"
  by (rule nth_equalityI) (simp_all add: py_enumerate_def)

lemma map_snd_enumerate: "map snd (py_enumerate xs) = xs"
  by (simp add: py_enumerate_def)

lemma train_token_to_id:
  "token_to_id (train cls self corpus) =
     (let ks = retained (vocab_size self) (ranked cls (ngram_size self) corpus)
      in zip ks (map int [0..<length ks]))"
proof -
  define T where
    "T = retained (vocab_size self) (sorted_reverse snd (count_ngrams cls (ngram_size self) corpus))"
  have ks: "retained (vocab_size self) (ranked cls (ngram_size self) corpus) = map fst T"
    by (simp add: T_def ranked_def retained_map)
  have dT: "distinct (map fst T)"
    using distinct_retained [OF distinct_ranked, of "vocab_size self" cls "ngram_size self" corpus]
    by (simp add: ks)
  have "map (\<lambda>p. fst (snd p)) (py_enumerate T) = map fst (map snd (py_enumerate T))"
    by (simp add: comp_def)
  then have "distinct (map (\<lambda>p. fst (snd p)) (py_enumerate T))"
    using dT by (simp only: map_snd_enumerate)
  then have "fold (\<lambda>p d. dict_setitem d (fst (snd p)) (fst p)) (py_enumerate T) []
             = [] @ map (\<lambda>p. (fst (snd p), fst p)) (py_enumerate T)"
    by (intro fold_setitem_fresh) simp_all
  moreover have "token_to_id (train cls self corpus)
             = fold (\<lambda>p d. dict_setitem d (fst (snd p)) (fst p)) (py_enumerate T) []"
    by (simp add: train_def Let_def T_def retained_def split_def)
  ultimately have "token_to_id (train cls self corpus) = zip (map fst T) (map int [0..<length T])"
    by (simp add: enumerate_keys)
  then show ?thesis by (simp add: ks Let_def)
qed

lemma train_id_to_token:
  "id_to_token (train cls self corpus) = map (\<lambda>p. (snd p, fst p)) (token_to_id (train cls self corpus))"
proof -
  define tti where "tti = token_to_id (train cls self corpus)"
  have "distinct (map snd tti)"
    by (simp add: tti_def train_token_to_id Let_def distinct_map inj_on_def)
  then have "fold (\<lambda>p d. dict_setitem d (snd p) (fst p)) tti [] = [] @ map (\<lambda>p. (snd p, fst p)) tti"
    by (intro fold_setitem_fresh) simp_all
  moreover have "id_to_token (train cls self corpus)
     = fold (\<lambda>p d. dict_setitem d (snd p) (fst p)) tti []"
    by (simp add: tti_def train_def Let_def split_def)
  ultimately show ?thesis by (simp add: tti_def)
qed

subsection \<open>The vocabulary after training\<close>

lemma train_keys:
  "map fst (token_to_id (train cls self corpus))
     = retained (vocab_size self) (ranked cls (ngram_size self) corpus)"
  by (simp add: train_token_to_id Let_def)

lemma train_ids:
  "map snd (token_to_id (train cls self corpus))
     = map int [0..<length (token_to_id (train cls self corpus))]"
  by (simp add: train_token_to_id Let_def)

lemma distinct_train_keys: "distinct (map fst (token_to_id (train cls self corpus)))"
  by (simp add: train_keys distinct_retained distinct_ranked)

lemma distinct_train_ids: "distinct (map snd (token_to_id (train cls self corpus)))"
  by (simp add: train_ids distinct_map inj_on_def)

lemma id_to_token_fst:
  "map fst (id_to_token (train cls self corpus)) = map snd (token_to_id (train cls self corpus))"
  by (simp add: train_id_to_token)

lemma id_to_token_snd:
  "map snd (id_to_token (train cls self corpus)) = map fst (token_to_id (train cls self corpus))"
  by (simp add: train_id_to_token)

lemma map_of_swap:
  assumes "distinct (map fst ps)" "distinct (map snd ps)"
  shows "(map_of ps a = Some b) = (map_of (map (\<lambda>p. (snd p, fst p)) ps) b = Some a)"
proof -
  have d: "distinct (map fst (map (\<lambda>p. (snd p, fst p)) ps))"
    using assms(2) by (simp add: comp_def)
  have "(map_of ps a = Some b) = ((a, b) \<in> set ps)"
    using assms(1) by simp
  also have "\<dots> = ((b, a) \<in> set (map (\<lambda>p. (snd p, fst p)) ps))"
    by force
  also have "\<dots> = (map_of (map (\<lambda>p. (snd p, fst p)) ps) b = Some a)"
    using d by simp
  finally show ?thesis .
qed

text \<open>
  Claim C2. After \<^verbatim>\<open>train\<close> the two maps are inverse to each other, neither has a
  duplicate key or value, and the ids are exactly \<open>0, \<dots>, len - 1\<close>.
\<close>

theorem dense_ids:
  "(let s = train cls self corpus in
    (\<forall>g i. (map_of (token_to_id s) g = Some i) = (map_of (id_to_token s) i = Some g))
    \<and> distinct (map fst (token_to_id s)) \<and> distinct (map snd (token_to_id s))
    \<and> distinct (map fst (id_to_token s)) \<and> distinct (map snd (id_to_token s))
    \<and> set (map snd (token_to_id s)) = {0..<len s}
    \<and> set (map fst (id_to_token s)) = {0..<len s}
    \<and> int (length (id_to_token s)) = len s)"
proof -
  define s where "s = train cls self corpus"
  have dk: "distinct (map fst (token_to_id s))" and di: "distinct (map snd (token_to_id s))"
    by (simp_all add: s_def distinct_train_keys distinct_train_ids)
  have itt: "id_to_token s = map (\<lambda>p. (snd p, fst p)) (token_to_id s)"
    by (simp add: s_def train_id_to_token)
  have inv: "(map_of (token_to_id s) g = Some i) = (map_of (id_to_token s) i = Some g)" for g i
    unfolding itt using dk di by (rule map_of_swap)
  have ids: "set (map snd (token_to_id s)) = {0..<len s}"
    unfolding s_def train_ids len_def
    by (simp add: image_int_atLeastLessThan)
  have "distinct (map fst (id_to_token s))" "distinct (map snd (id_to_token s))"
    "set (map fst (id_to_token s)) = {0..<len s}" "int (length (id_to_token s)) = len s"
    using dk di ids by (simp_all add: itt comp_def len_def)
  then show ?thesis using inv dk di ids unfolding s_def [symmetric] Let_def by blast
qed

subsection \<open>Tokenization\<close>

lemma dict_contains_iff: "dict_contains d k = (k \<in> fst ` set d)"
  by (simp add: dict_contains_def map_of_eq_None_iff)

lemma lookup_ids_filter:
  "lookup_ids d gs = Inr (map (\<lambda>g. the (map_of d g)) (filter (dict_contains d) gs))"
  by (induction gs) (auto simp: dict_contains_def dict_getitem_def)

lemma map_of_filter_contains:
  "map (map_of d) (filter (dict_contains d) gs)
     = map Some (map (\<lambda>g. the (map_of d g)) (filter (dict_contains d) gs))"
  by (induction gs) (auto simp: dict_contains_def)

lemma the_map_of_in_values:
  "dict_contains d g \<Longrightarrow> the (map_of d g) \<in> snd ` set d"
  by (auto simp: dict_contains_def dest: map_of_SomeD intro: rev_image_eqI)

text \<open>
  Claim C3. \<^verbatim>\<open>tokenize\<close> returns the windows of the text that are keys of
  \<^verbatim>\<open>token_to_id\<close>, in their order, or in id mode their ids in that order; it never
  raises, every n-gram and id returned belongs to the vocabulary, and on an instance
  that was never trained the result is empty.
\<close>

theorem tokenize_filter:
  "(let windows = extract_ngrams (ngram_size self) (convert_text_to_words cls text);
        known = filter (\<lambda>g. g \<in> fst ` set (token_to_id self)) windows;
        ids = map (\<lambda>g. the (map_of (token_to_id self) g)) known
    in fst (tokenize cls self text False) = Inr (Ngrams known)
       \<and> fst (tokenize cls self text True) = Inr (Ids ids)
       \<and> map (map_of (token_to_id self)) known = map Some ids
       \<and> set known \<subseteq> fst ` set (token_to_id self)
       \<and> set ids \<subseteq> snd ` set (token_to_id self))
   \<and> fst (tokenize cls (NgramTokenizer_init n vs) text False) = Inr (Ngrams [])
   \<and> fst (tokenize cls (NgramTokenizer_init n vs) text True) = Inr (Ids [])"
proof -
  define d where "d = token_to_id self"
  define windows where "windows = extract_ngrams (ngram_size self) (convert_text_to_words cls text)"
  have eq: "(\<lambda>g. g \<in> fst ` set d) = dict_contains d"
    by (simp add: fun_eq_iff dict_contains_iff)
  have 1: "fst (tokenize cls self text False) = Inr (Ngrams (filter (dict_contains d) windows))"
    by (simp add: tokenize_def Let_def d_def windows_def)
  have 2: "fst (tokenize cls self text True)
           = Inr (Ids (map (\<lambda>g. the (map_of d g)) (filter (dict_contains d) windows)))"
    by (simp add: tokenize_def Let_def d_def windows_def lookup_ids_filter)
  have 3: "set (filter (dict_contains d) windows) \<subseteq> fst ` set d"
    by (auto simp: dict_contains_iff)
  have 4: "set (map (\<lambda>g. the (map_of d g)) (filter (dict_contains d) windows)) \<subseteq> snd ` set d"
    using the_map_of_in_values [of d] by auto
  have fresh: "token_to_id (NgramTokenizer_init n vs :: 'a ngram_tokenizer) = []"
    by (simp add: NgramTokenizer_init_def Tokenizer_init_def tokenizer.defs ngram_tokenizer.defs)
  have 5: "fst (tokenize cls (NgramTokenizer_init n vs) text False) = Inr (Ngrams [])"
    by (simp add: tokenize_def Let_def fresh dict_contains_def)
  have 6: "fst (tokenize cls (NgramTokenizer_init n vs) text True) = Inr (Ids [])"
    by (simp add: tokenize_def Let_def fresh lookup_ids_filter dict_contains_def)
  show ?thesis
    unfolding Let_def d_def [symmetric] windows_def [symmetric] eq
    using 1 2 3 4 5 6 map_of_filter_contains [of d windows] by simp
qed

text \<open>
  Claim C9. \<^verbatim>\<open>tokenize\<close> leaves the instance as it was, in either mode.
\<close>

theorem tokenize_frame: "snd (tokenize cls self text return_token_ids) = self"
  by (simp add: tokenize_def Let_def split: sum.splits)

subsection \<open>Construction and retraining\<close>

text \<open>
  Claim C7 does not hold: the call \<^verbatim>\<open>NgramTokenizer(0)\<close> and the call
  \<^verbatim>\<open>NgramTokenizer(2, 0)\<close> both produce an instance.
\<close>

theorem invalid_configuration_accepted:
  "(NgramTokenizer_new 0 (- 1) :: error + char ngram_tokenizer)
     = Inr \<lparr>vocab_size = - 1, token_to_id = [], id_to_token = [], ngram_size = 0\<rparr>
   \<and> (NgramTokenizer_new 2 0 :: error + char ngram_tokenizer)
     = Inr \<lparr>vocab_size = 0, token_to_id = [], id_to_token = [], ngram_size = 2\<rparr>"
  by (simp add: NgramTokenizer_new_def NgramTokenizer_init_def Tokenizer_init_def
      tokenizer.defs ngram_tokenizer.defs)

text \<open>
  Claim C7, amended. Construction never raises: for every \<open>n\<close> and every
  \<open>vocab_size\<close> it produces the instance with these two values and two empty maps.
\<close>

theorem construction_total:
  "NgramTokenizer_new n vs
     = Inr \<lparr>vocab_size = vs, token_to_id = [], id_to_token = [], ngram_size = n\<rparr>"
  by (simp add: NgramTokenizer_new_def NgramTokenizer_init_def Tokenizer_init_def
      tokenizer.defs ngram_tokenizer.defs)

text \<open>
  Claim C8. Training on \<open>c1\<close> and then on \<open>c2\<close> leaves the instance in the state of
  a fresh instance of the same \<open>n\<close> and \<open>vocab_size\<close> trained on \<open>c2\<close> alone.
\<close>

theorem retrain_replaces:
  "train cls (train cls (NgramTokenizer_init n vs) c1) c2 = train cls (NgramTokenizer_init n vs) c2
   \<and> train cls (train cls self c1) c2
       = train cls (NgramTokenizer_init (ngram_size self) (vocab_size self)) c2"
proof -
  have "train cls (train cls s c1) c2
          = train cls (NgramTokenizer_init (ngram_size s) (vocab_size s)) c2"
    for s :: "'a ngram_tokenizer"
    by (simp add: train_def Let_def NgramTokenizer_init_def Tokenizer_init_def
        tokenizer.defs ngram_tokenizer.defs)
  moreover have "ngram_size (NgramTokenizer_init n vs :: 'a ngram_tokenizer) = n"
    "vocab_size (NgramTokenizer_init n vs :: 'a ngram_tokenizer) = vs"
    by (simp_all add: NgramTokenizer_init_def Tokenizer_init_def tokenizer.defs
        ngram_tokenizer.defs)
  ultimately show ?thesis by metis
qed

subsection \<open>Frequency ranking\<close>

lemma count_ngrams_entry:
  assumes "p \<in> set (count_ngrams cls n corpus)"
  shows "fst p \<in> set (corpus_ngrams cls n corpus)" and "snd p = frequency cls n corpus (fst p)"
proof -
  have "map_of (count_ngrams cls n corpus) (fst p) = Some (snd p)"
    using assms distinct_count_ngrams [of cls n corpus] by simp
  then have m: "map_of (count_all (corpus_ngrams cls n corpus) []) (fst p) = Some (snd p)"
    by (simp add: count_ngrams_count_all)
  then show "fst p \<in> set (corpus_ngrams cls n corpus)"
    by (simp add: map_of_count_all split: if_splits)
  with m show "snd p = frequency cls n corpus (fst p)"
    by (simp add: map_of_count_all frequency_def)
qed

lemma count_ngrams_mem:
  assumes "g \<in> set (corpus_ngrams cls n corpus)"
  shows "(g, frequency cls n corpus g) \<in> set (count_ngrams cls n corpus)"
proof -
  have "map_of (count_ngrams cls n corpus) g = Some (frequency cls n corpus g)"
    using assms by (simp add: count_ngrams_count_all map_of_count_all frequency_def)
  then show ?thesis by (rule map_of_SomeD)
qed

lemma token_id_rank:
  assumes "map_of (token_to_id (train cls self corpus)) g = Some i"
  shows "g \<in> set (corpus_ngrams cls (ngram_size self) corpus)"
    and "i = int (first_pos (ranked cls (ngram_size self) corpus) g)"
proof -
  let ?R = "ranked cls (ngram_size self) corpus"
  let ?K = "retained (vocab_size self) ?R"
  have "map_of (zip ?K (map int [0..<0 + length ?K])) g = Some i"
    using assms by (simp add: train_token_to_id Let_def)
  then have mem: "g \<in> set ?K" and i: "i = int (first_pos ?K g)"
    by (simp_all only: map_of_zip_upt split: if_splits) simp_all
  from mem have "g \<in> set ?R"
    by (auto simp: retained_take dest: in_set_takeD)
  then show "g \<in> set (corpus_ngrams cls (ngram_size self) corpus)"
    by (simp add: set_ranked)
  from mem show "i = int (first_pos ?R g)"
    unfolding i retained_take by (simp add: first_pos_take)
qed

lemma ranked_by_frequency:
  assumes "a \<in> set (corpus_ngrams cls n corpus)" "b \<in> set (corpus_ngrams cls n corpus)"
    and "frequency cls n corpus b < frequency cls n corpus a"
  shows "first_pos (ranked cls n corpus) a < first_pos (ranked cls n corpus) b"
proof (rule ccontr)
  let ?C = "count_ngrams cls n corpus"
  let ?S = "sort_key (\<lambda>x. - snd x) ?C"
  let ?R = "ranked cls n corpus"
  assume "\<not> first_pos ?R a < first_pos ?R b"
  then have le: "first_pos ?R b \<le> first_pos ?R a" by simp
  have R: "?R = map fst ?S" by (simp add: ranked_def sorted_reverse_def)
  have aR: "a \<in> set ?R" and bR: "b \<in> set ?R" using assms by (simp_all add: set_ranked)
  have la: "first_pos ?R a < length ?S" using first_pos_less [OF aR] by (simp add: R)
  have lb: "first_pos ?R b < length ?S" using first_pos_less [OF bR] by (simp add: R)
  have fa: "fst (?S ! first_pos ?R a) = a" using first_pos_nth [OF aR] la by (simp add: R)
  have fb: "fst (?S ! first_pos ?R b) = b" using first_pos_nth [OF bR] lb by (simp add: R)
  have "?S ! first_pos ?R a \<in> set ?C" using la by (metis nth_mem set_sort)
  from count_ngrams_entry(2) [OF this] have sa: "snd (?S ! first_pos ?R a) = frequency cls n corpus a"
    by (simp add: fa)
  have "?S ! first_pos ?R b \<in> set ?C" using lb by (metis nth_mem set_sort)
  from count_ngrams_entry(2) [OF this] have sb: "snd (?S ! first_pos ?R b) = frequency cls n corpus b"
    by (simp add: fb)
  have "sorted (map (\<lambda>x. - snd x) ?S)" by (rule sorted_sort_key)
  then have "map (\<lambda>x. - snd x) ?S ! first_pos ?R b \<le> map (\<lambda>x. - snd x) ?S ! first_pos ?R a"
    using le la by (intro sorted_nth_mono) simp_all
  then have "frequency cls n corpus a \<le> frequency cls n corpus b"
    using la lb by (simp add: sa sb)
  with assms(3) show False by simp
qed

lemma ranked_ties:
  assumes "a \<in> set (corpus_ngrams cls n corpus)" "b \<in> set (corpus_ngrams cls n corpus)"
    and "frequency cls n corpus a = frequency cls n corpus b"
    and "first_occurrence cls n corpus a < first_occurrence cls n corpus b"
  shows "first_pos (ranked cls n corpus) a < first_pos (ranked cls n corpus) b"
proof -
  let ?W = "corpus_ngrams cls n corpus"
  let ?C = "count_ngrams cls n corpus"
  let ?S = "sort_key (\<lambda>x. - snd x) ?C"
  let ?x = "(a, frequency cls n corpus a)" and ?y = "(b, frequency cls n corpus b)"
  have xC: "?x \<in> set ?C" and yC: "?y \<in> set ?C"
    using assms(1,2) by (simp_all add: count_ngrams_mem)
  have inj: "inj_on fst (set ?C)"
    using distinct_count_ngrams [of cls n corpus] by (simp add: distinct_map)
  have injS: "inj_on fst (set ?S)" using inj by simp
  have "first_pos (map fst ?C) a < first_pos (map fst ?C) b"
    using first_pos_keys [of a ?W b] assms
    by (simp add: count_ngrams_count_all first_occurrence_def)
  then have "first_pos ?C ?x < first_pos ?C ?y"
    using first_pos_map_inj [OF inj xC] first_pos_map_inj [OF inj yC] by simp
  then have "first_pos ?S ?x < first_pos ?S ?y"
    using first_pos_sort_key [of ?x ?C ?y "\<lambda>x. - snd x"] xC yC assms(3) by simp
  moreover have "first_pos (map fst ?S) (fst ?x) = first_pos ?S ?x"
    using xC by (intro first_pos_map_inj [OF injS]) simp
  moreover have "first_pos (map fst ?S) (fst ?y) = first_pos ?S ?y"
    using yC by (intro first_pos_map_inj [OF injS]) simp
  ultimately show ?thesis by (simp add: ranked_def sorted_reverse_def)
qed

text \<open>
  Claim C1. Among the n-grams that \<^verbatim>\<open>train\<close> retains, one of higher frequency has
  the smaller id, and of two with equal frequency the one that occurs first in the
  scan of the corpus has the smaller id.
\<close>

theorem frequency_ranking:
  assumes "map_of (token_to_id (train cls self corpus)) a = Some i"
    and "map_of (token_to_id (train cls self corpus)) b = Some j"
  shows "(frequency cls (ngram_size self) corpus b < frequency cls (ngram_size self) corpus a
            \<longrightarrow> i < j)
       \<and> (frequency cls (ngram_size self) corpus a = frequency cls (ngram_size self) corpus b
          \<and> first_occurrence cls (ngram_size self) corpus a
              < first_occurrence cls (ngram_size self) corpus b
            \<longrightarrow> i < j)"
  using token_id_rank [OF assms(1)] token_id_rank [OF assms(2)]
    ranked_by_frequency [of a cls "ngram_size self" corpus b]
    ranked_ties [of a cls "ngram_size self" corpus b]
  by simp


theorem frequency_ranking_witness:
  "map_of (token_to_id (train ascii_classes (NgramTokenizer_init 1 (- 1)) [''b a a''])) [''a'']
     = Some 0
   \<and> map_of (token_to_id (train ascii_classes (NgramTokenizer_init 1 (- 1)) [''b a a''])) [''b'']
     = Some 1
   \<and> frequency ascii_classes 1 [''b a a''] [''b''] < frequency ascii_classes 1 [''b a a''] [''a'']
   \<and> map_of (token_to_id (train ascii_classes (NgramTokenizer_init 1 (- 1)) [''x y''])) [''x'']
     = Some 0
   \<and> map_of (token_to_id (train ascii_classes (NgramTokenizer_init 1 (- 1)) [''x y''])) [''y'']
     = Some 1
   \<and> frequency ascii_classes 1 [''x y''] [''x''] = frequency ascii_classes 1 [''x y''] [''y'']
   \<and> first_occurrence ascii_classes 1 [''x y''] [''x'']
       < first_occurrence ascii_classes 1 [''x y''] [''y'']
   \<and> (0::int) < 1"
proof -
  let ?s = "NgramTokenizer_init 1 (- 1) :: char ngram_tokenizer"
  have a: "map_of (token_to_id (train ascii_classes ?s [''b a a''])) [''a''] = Some 0"
    and b: "map_of (token_to_id (train ascii_classes ?s [''b a a''])) [''b''] = Some 1"
    and x: "map_of (token_to_id (train ascii_classes ?s [''x y''])) [''x''] = Some 0"
    and y: "map_of (token_to_id (train ascii_classes ?s [''x y''])) [''y''] = Some 1"
    by code_simp+
  have n: "ngram_size ?s = 1" by code_simp
  have f: "frequency ascii_classes 1 [''b a a''] [''b''] < frequency ascii_classes 1 [''b a a''] [''a'']"
    and e: "frequency ascii_classes 1 [''x y''] [''x''] = frequency ascii_classes 1 [''x y''] [''y'']"
    and o: "first_occurrence ascii_classes 1 [''x y''] [''x'']
              < first_occurrence ascii_classes 1 [''x y''] [''y'']"
    by code_simp+
  have "(0::int) < 1"
    using frequency_ranking [OF a b] frequency_ranking [OF x y] f e o by (simp add: n)
  then show ?thesis using a b x y f e o by simp
qed

subsection \<open>The size of the vocabulary\<close>

lemma length_train:
  "length (token_to_id (train cls self corpus))
     = length (retained (vocab_size self) (ranked cls (ngram_size self) corpus))"
  using train_keys [of cls self corpus] by (metis length_map)

lemma length_ranked:
  "length (ranked cls n corpus) = card (set (corpus_ngrams cls n corpus))"
  using distinct_card [OF distinct_ranked, of cls n corpus] by (simp add: set_ranked)

text \<open>
  Claim C4. A bounded \<^verbatim>\<open>vocab_size\<close> is a maximum number of tokens, a positive integer
  in the specification (\<open>maxVocabSize \<ge> 1\<close>); the sentinel -1 means no limit. For every
  bound, and for the bound 0 as well, the vocabulary after \<^verbatim>\<open>train\<close> has at most
  \<^verbatim>\<open>vocab_size\<close> entries; with the sentinel -1 it holds every n-gram of the corpus and
  nothing else. The values below -1 are no maximum; what \<^verbatim>\<open>train\<close> does with them is
  claim C10.
\<close>

theorem vocabulary_bound:
  "(0 \<le> vocab_size self \<longrightarrow> len (train cls self corpus) \<le> vocab_size self)
   \<and> (vocab_size self = - 1 \<longrightarrow>
        fst ` set (token_to_id (train cls self corpus))
          = set (corpus_ngrams cls (ngram_size self) corpus))"
proof (intro conjI impI)
  assume "0 \<le> vocab_size self"
  then show "len (train cls self corpus) \<le> vocab_size self"
    by (simp add: len_def length_train retained_take slice_bound_def)
next
  assume "vocab_size self = - 1"
  then have "map fst (token_to_id (train cls self corpus)) = ranked cls (ngram_size self) corpus"
    by (simp add: train_keys retained_def)
  then have "set (map fst (token_to_id (train cls self corpus)))
               = set (corpus_ngrams cls (ngram_size self) corpus)"
    by (simp only: set_ranked)
  then show "fst ` set (token_to_id (train cls self corpus))
               = set (corpus_ngrams cls (ngram_size self) corpus)"
    by simp
qed

theorem vocabulary_bound_witness:
  "0 \<le> vocab_size (NgramTokenizer_init 1 2 :: char ngram_tokenizer)
   \<and> len (train ascii_classes (NgramTokenizer_init 1 2) [''b a a c b a''])
       \<le> vocab_size (NgramTokenizer_init 1 2 :: char ngram_tokenizer)
   \<and> vocab_size (NgramTokenizer_init 1 (- 1) :: char ngram_tokenizer) = - 1
   \<and> fst ` set (token_to_id (train ascii_classes (NgramTokenizer_init 1 (- 1)) [''b a a c b a'']))
       = set (corpus_ngrams ascii_classes
                (ngram_size (NgramTokenizer_init 1 (- 1) :: char ngram_tokenizer))
                [''b a a c b a''])"
proof -
  have p: "0 \<le> vocab_size (NgramTokenizer_init 1 2 :: char ngram_tokenizer)"
    and u: "vocab_size (NgramTokenizer_init 1 (- 1) :: char ngram_tokenizer) = - 1"
    by code_simp+
  show ?thesis
    using p u
      vocabulary_bound [of "NgramTokenizer_init 1 2" ascii_classes "[''b a a c b a'']"]
      vocabulary_bound [of "NgramTokenizer_init 1 (- 1)" ascii_classes "[''b a a c b a'']"]
    by blast
qed

text \<open>
  Claim C10. \<^verbatim>\<open>train\<close> has no failing step for any \<^verbatim>\<open>vocab_size\<close>. With
  \<^verbatim>\<open>vocab_size = 0\<close> the vocabulary is empty. With \<^verbatim>\<open>vocab_size = -k\<close>, \<open>k \<ge> 2\<close>, and \<open>d\<close>
  distinct n-grams in the corpus, the vocabulary is the one of the unbounded training
  without its \<open>k\<close> lowest-ranked entries: it has \<open>max 0 (d - k)\<close> entries.
\<close>

theorem nonpositive_vocab_size:
  "(vocab_size self = 0 \<longrightarrow>
      token_to_id (train cls self corpus) = [] \<and> id_to_token (train cls self corpus) = []
      \<and> len (train cls self corpus) = 0)
   \<and> (2 \<le> k \<and> vocab_size self = - k \<longrightarrow>
        (let d = int (card (set (corpus_ngrams cls (ngram_size self) corpus)));
             full = train cls (self\<lparr>vocab_size := - 1\<rparr>) corpus
         in len full = d
            \<and> len (train cls self corpus) = max 0 (d - k)
            \<and> token_to_id (train cls self corpus) = take (nat (d - k)) (token_to_id full)
            \<and> id_to_token (train cls self corpus) = take (nat (d - k)) (id_to_token full)))"
proof (rule conjI; rule impI)
  assume z: "vocab_size self = 0"
  then have t: "token_to_id (train cls self corpus) = []"
    by (simp add: train_token_to_id Let_def retained_take slice_bound_def)
  then show "token_to_id (train cls self corpus) = []
      \<and> id_to_token (train cls self corpus) = [] \<and> len (train cls self corpus) = 0"
    by (simp add: train_id_to_token len_def)
next
  assume "2 \<le> k \<and> vocab_size self = - k"
  then have k: "2 \<le> k" and v: "vocab_size self = - k" by simp_all
  let ?R = "ranked cls (ngram_size self) corpus"
  let ?full = "train cls (self\<lparr>vocab_size := - 1\<rparr>) corpus"
  let ?d = "int (card (set (corpus_ngrams cls (ngram_size self) corpus)))"
  have d: "int (length ?R) = ?d" by (simp add: length_ranked)
  have full: "token_to_id ?full = zip ?R (map int [0..<length ?R])"
    by (simp add: train_token_to_id Let_def retained_def)
  have m: "slice_bound (length ?R) (- k) = nat (?d - k)"
    using k d by (simp add: slice_bound_def max_def)
  have kept: "retained (vocab_size self) ?R = take (nat (?d - k)) ?R"
    using k v m by (simp add: retained_take)
  have "token_to_id (train cls self corpus)
          = zip (take (nat (?d - k)) ?R) (map int [0..<length (take (nat (?d - k)) ?R)])"
    by (simp add: train_token_to_id Let_def kept)
  also have "map int [0..<length (take (nat (?d - k)) ?R)]
               = take (nat (?d - k)) (map int [0..<length ?R])"
    by (simp add: take_map min_def)
  finally have tti: "token_to_id (train cls self corpus) = take (nat (?d - k)) (token_to_id ?full)"
    by (simp add: full take_zip)
  have itt: "id_to_token (train cls self corpus) = take (nat (?d - k)) (id_to_token ?full)"
    by (simp add: train_id_to_token [of cls self] train_id_to_token [of cls "self\<lparr>vocab_size := - 1\<rparr>"]
        tti take_map)
  have lf: "len ?full = ?d"
    using d by (simp add: len_def full)
  have "int (min (nat (int L - k)) L) = max 0 (int L - k)" for L :: nat
    using k by arith
  from this [of "length (token_to_id ?full)"]
  have l: "len (train cls self corpus) = max 0 (?d - k)"
    using lf by (simp add: len_def tti)
  show "let d = ?d; full = ?full
        in len full = d
            \<and> len (train cls self corpus) = max 0 (d - k)
            \<and> token_to_id (train cls self corpus) = take (nat (d - k)) (token_to_id full)
            \<and> id_to_token (train cls self corpus) = take (nat (d - k)) (id_to_token full)"
    unfolding Let_def using lf l tti itt by simp
qed

theorem nonpositive_vocab_size_witness:
  "vocab_size (NgramTokenizer_init 1 0 :: char ngram_tokenizer) = 0
   \<and> token_to_id (train ascii_classes (NgramTokenizer_init 1 0) [''b a a c b a'']) = []
   \<and> (2::int) \<le> 2
   \<and> vocab_size (NgramTokenizer_init 1 (- 2) :: char ngram_tokenizer) = - 2
   \<and> len (train ascii_classes (NgramTokenizer_init 1 (- 2)) [''b a a c b a''])
       = max 0 (int (card (set (corpus_ngrams ascii_classes
                  (ngram_size (NgramTokenizer_init 1 (- 2) :: char ngram_tokenizer))
                  [''b a a c b a'']))) - 2)"
proof -
  have z: "vocab_size (NgramTokenizer_init 1 0 :: char ngram_tokenizer) = 0"
    and m: "vocab_size (NgramTokenizer_init 1 (- 2) :: char ngram_tokenizer) = - 2"
    by code_simp+
  have two: "(2::int) \<le> 2" by simp
  show ?thesis
    using z m two
      nonpositive_vocab_size [of "NgramTokenizer_init 1 0" ascii_classes "[''b a a c b a'']" 2]
      nonpositive_vocab_size [of "NgramTokenizer_init 1 (- 2)" ascii_classes "[''b a a c b a'']" 2]
    unfolding Let_def by blast
qed

end
